theory Spec2Isabelle
  imports Complex_Main "HOL-Library.Sublist" "HOL-Library.List_Lexorder" "HOL-Library.Char_ord"
begin

section \<open>HireSense AI: text extraction, TF-IDF scoring and ranking (app.py)\<close>

text \<open>
  The embedding covers the three functions of \<^verbatim>\<open>app.py\<close> that take part in a ranking run:
  \<^verbatim>\<open>extract_text_from_pdf\<close>, \<^verbatim>\<open>rank_resumes\<close> and the processing branch of
  \<^verbatim>\<open>show_dashboard\<close>.

  Conventions.
  \<^item> A Python \<^verbatim>\<open>str\<close> is a \<open>string\<close>, a \<open>char\<close> being the code point of the same
    number: the model speaks about text of code points below 256, and the character
    classes below (whitespace, word characters, upper case) are Python's on these.
  \<^item> A raised exception is the \<open>Inl\<close> of a sum; \<open>Inr\<close> is a normal return.
  \<^item> A score (a numpy \<^verbatim>\<open>float64\<close> in the program) is a \<open>real\<close>: the arithmetic of the
    model is exact, and the rounding of IEEE doubles is not part of it. A score of the
    program differs from the model's by that rounding (an identical text has the score
    1 in the model and a float64 next to 1 in the program), and a real number is never
    NaN.
  \<^item> pypdf and scikit-learn are libraries, not code of the repository. What pypdf does
    with an upload is an input of the model; the scikit-learn calls are written out as
    the library documents its defaults.
\<close>

subsection \<open>Exceptions\<close>

datatype py_exception =
    ValueError string
  | IndexError string
  | OtherException string

fun str_of_exception :: "py_exception \<Rightarrow> string" where
  "str_of_exception (ValueError msg) = msg"
| "str_of_exception (IndexError msg) = msg"
| "str_of_exception (OtherException msg) = msg"

subsection \<open>Strings\<close>

definition is_space :: "char \<Rightarrow> bool" where
  \<comment> \<open>the characters \<^verbatim>\<open>str.strip()\<close> removes: TAB, LF, VT, FF, CR, FS, GS, RS, US, space,
      NEL (U+0085) and the no-break space (U+00A0)\<close>
  "is_space c =
     (let n = (of_char c :: nat) in
      (9 \<le> n \<and> n \<le> 13) \<or> (28 \<le> n \<and> n \<le> 32) \<or> n = 133 \<or> n = 160)"

definition py_strip :: "string \<Rightarrow> string" where
  "py_strip s = rev (dropWhile is_space (rev (dropWhile is_space s)))"

definition py_in :: "string \<Rightarrow> string \<Rightarrow> bool" where
  \<comment> \<open>\<^verbatim>\<open>needle in text\<close>: a contiguous occurrence\<close>
  "py_in needle s = sublist needle s"

definition lower_char :: "char \<Rightarrow> char" where
  \<comment> \<open>\<^verbatim>\<open>str.lower()\<close> on one character: A-Z and the capital letters U+00C0-U+00DE
      (without the multiplication sign U+00D7) have their lower case 32 further\<close>
  "lower_char c =
     (let n = (of_char c :: nat) in
      if (65 \<le> n \<and> n \<le> 90) \<or> (192 \<le> n \<and> n \<le> 214) \<or> (216 \<le> n \<and> n \<le> 222)
      then char_of (n + 32) else c)"

definition py_lower :: "string \<Rightarrow> string" where
  "py_lower s = map lower_char s"

subsection \<open>extract_text_from_pdf\<close>

text \<open>
  \<^verbatim>\<open>
  def extract_text_from_pdf(file):
      try:
          pdf = PdfReader(file)
          text = ""
          for page in pdf.pages:
              page_text = page.extract_text()
              if page_text:
                  text += page_text + "\n"
          return text.strip() if text else "No readable text found."
      except Exception as e:
          return f"Error extracting text: {str(e)}"
  \<close>
  What pypdf does with the bytes of an upload is the input: \<^verbatim>\<open>PdfReader(file)\<close> (with
  \<^verbatim>\<open>pdf.pages\<close>) raises, or gives the pages in order, and \<^verbatim>\<open>extract_text()\<close> of a
  page raises or returns a string (empty when the page has no text layer).
\<close>

type_synonym pdf_page = "py_exception + string"

type_synonym pdf_reader = "py_exception + pdf_page list"

record uploaded_file =
  name :: string
  reader :: pdf_reader

fun extract_pages :: "string \<Rightarrow> pdf_page list \<Rightarrow> py_exception + string" where
  "extract_pages text [] = Inr text"
| "extract_pages text (page # pages) =
     (case page of
        Inl e \<Rightarrow> Inl e
      | Inr page_text \<Rightarrow>
          extract_pages (if page_text \<noteq> [] then text @ page_text @ [CHR 0x0A] else text) pages)"

definition extract_try :: "pdf_reader \<Rightarrow> py_exception + string" where
  \<comment> \<open>the body of the \<^verbatim>\<open>try\<close>\<close>
  "extract_try file =
     (case file of
        Inl e \<Rightarrow> Inl e
      | Inr pages \<Rightarrow>
          (case extract_pages [] pages of
             Inl e \<Rightarrow> Inl e
           | Inr text \<Rightarrow> Inr (if text \<noteq> [] then py_strip text else ''No readable text found.'')))"

definition extract_text_from_pdf :: "pdf_reader \<Rightarrow> py_exception + string" where
  "extract_text_from_pdf file =
     (case extract_try file of
        Inl e \<Rightarrow> Inr (''Error extracting text: '' @ str_of_exception e)
      | Inr text \<Rightarrow> Inr text)"

subsection \<open>scikit-learn: TfidfVectorizer() and cosine_similarity\<close>

text \<open>
  \<^verbatim>\<open>TfidfVectorizer()\<close> with its default parameters: the analyzer lower-cases a document
  and takes the matches of the token pattern \<^verbatim>\<open>(?u)\b\w\w+\b\<close>, that is the maximal runs
  of word characters that are at least two characters long; there are no stop words.
  The vocabulary is the sorted set of tokens of all documents, and fitting raises
  \<^verbatim>\<open>ValueError("empty vocabulary; ...")\<close> when it is empty. The weight of term \<open>t\<close> in
  document \<open>d\<close> is \<open>tf(t, d) * idf(t)\<close> with \<open>tf\<close> the raw count and
  \<open>idf(t) = ln((1 + n) / (1 + df(t))) + 1\<close> (\<^verbatim>\<open>smooth_idf=True\<close>), \<open>n\<close> the number of
  documents and \<open>df(t)\<close> the number of documents that contain \<open>t\<close>. Each row is then
  divided by its Euclidean norm (\<^verbatim>\<open>norm='l2'\<close>); a row of zeros is left as it is.
\<close>

definition is_word_char :: "char \<Rightarrow> bool" where
  \<comment> \<open>\<^verbatim>\<open>\w\<close> of a Unicode pattern: the underscore and the alphanumeric characters
      (letters, digits and the other numeric characters)\<close>
  "is_word_char c =
     (let n = (of_char c :: nat) in
      (48 \<le> n \<and> n \<le> 57) \<or> (65 \<le> n \<and> n \<le> 90) \<or> n = 95 \<or> (97 \<le> n \<and> n \<le> 122) \<or>
      n = 170 \<or> n = 178 \<or> n = 179 \<or> n = 181 \<or> n = 185 \<or> n = 186 \<or>
      (188 \<le> n \<and> n \<le> 190) \<or> (192 \<le> n \<and> n \<le> 214) \<or> (216 \<le> n \<and> n \<le> 246) \<or>
      (248 \<le> n \<and> n \<le> 255))"

fun flush_run :: "string \<Rightarrow> string list" where
  "flush_run [] = []"
| "flush_run (c # cs) = [rev (c # cs)]"

fun word_runs :: "string \<Rightarrow> string \<Rightarrow> string list" where
  \<comment> \<open>the maximal runs of word characters; the first argument is the run being read, reversed\<close>
  "word_runs run [] = flush_run run"
| "word_runs run (c # cs) =
     (if is_word_char c then word_runs (c # run) cs else flush_run run @ word_runs [] cs)"

definition tokenize :: "string \<Rightarrow> string list" where
  "tokenize s = filter (\<lambda>w. 2 \<le> length w) (word_runs [] s)"

definition analyze :: "string \<Rightarrow> string list" where
  "analyze doc = tokenize (py_lower doc)"

definition vocabulary :: "string list list \<Rightarrow> string list" where
  "vocabulary docs = sort (remdups (concat docs))"

definition tf :: "string list \<Rightarrow> string \<Rightarrow> real" where
  "tf d t = real (count_list d t)"

definition df :: "string list list \<Rightarrow> string \<Rightarrow> nat" where
  "df docs t = length (filter (\<lambda>d. t \<in> set d) docs)"

definition idf :: "string list list \<Rightarrow> string \<Rightarrow> real" where
  "idf docs t = ln ((1 + real (length docs)) / (1 + real (df docs t))) + 1"

definition tfidf_row :: "string list list \<Rightarrow> string list \<Rightarrow> real list" where
  "tfidf_row docs d = map (\<lambda>t. tf d t * idf docs t) (vocabulary docs)"

definition l2_norm :: "real list \<Rightarrow> real" where
  "l2_norm v = sqrt (sum_list (map (\<lambda>x. x * x) v))"

definition normalize_row :: "real list \<Rightarrow> real list" where
  \<comment> \<open>\<^verbatim>\<open>sklearn.preprocessing.normalize\<close> on one row: a zero norm is replaced by 1\<close>
  "normalize_row v = (let n = l2_norm v in map (\<lambda>x. x / (if n = 0 then 1 else n)) v)"

definition fit_transform :: "string list \<Rightarrow> py_exception + real list list" where
  "fit_transform raw_documents =
     (let docs = map analyze raw_documents in
      if vocabulary docs = []
      then Inl (ValueError ''empty vocabulary; perhaps the documents only contain stop words'')
      else Inr (map (\<lambda>d. normalize_row (tfidf_row docs d)) docs))"

definition dot :: "real list \<Rightarrow> real list \<Rightarrow> real" where
  "dot x y = sum_list (map2 (*) x y)"

text \<open>
  \<^verbatim>\<open>cosine_similarity(X, Y)\<close> validates both arrays (an array with no row is refused with
  a \<^verbatim>\<open>ValueError\<close>, whose message is shortened here: the library's also names the
  shape of the array and the checking function), normalizes every row of both, and
  returns the matrix of dot products.
\<close>

definition cosine_similarity :: "real list list \<Rightarrow> real list list \<Rightarrow> py_exception + real list list" where
  "cosine_similarity X Y =
     (if X = [] \<or> Y = []
      then Inl (ValueError ''Found array with 0 sample(s) while a minimum of 1 is required.'')
      else Inr (map (\<lambda>x. map (\<lambda>y. dot (normalize_row x) (normalize_row y)) Y) X))"

subsection \<open>rank_resumes\<close>

text \<open>
  \<^verbatim>\<open>
  def rank_resumes(job_description, resumes):
      documents = [job_description] + resumes
      vectorizer = TfidfVectorizer().fit_transform(documents)
      vectors = vectorizer.toarray()
      job_description_vector = vectors[0]
      resume_vectors = vectors[1:]
      cosine_similarities = cosine_similarity([job_description_vector], resume_vectors).flatten()
      return cosine_similarities
  \<close>
\<close>

definition rank_resumes :: "string \<Rightarrow> string list \<Rightarrow> py_exception + real list" where
  "rank_resumes job_description resumes =
     (let documents = [job_description] @ resumes in
      case fit_transform documents of
        Inl e \<Rightarrow> Inl e
      | Inr vectors \<Rightarrow>
          (case vectors of
             [] \<Rightarrow> Inl (IndexError ''index 0 is out of bounds for axis 0 with size 0'')
           | job_description_vector # resume_vectors \<Rightarrow>
               (case cosine_similarity [job_description_vector] resume_vectors of
                  Inl e \<Rightarrow> Inl e
                | Inr cosine_similarities \<Rightarrow> Inr (concat cosine_similarities))))"

subsection \<open>show_dashboard: the ranking run\<close>

text \<open>
  \<^verbatim>\<open>sorted(zip(file_names, scores), key=lambda x: x[1], reverse=True)\<close>: CPython sorts
  with \<^verbatim>\<open>reverse=True\<close> by reversing the list, sorting it stably in ascending order of
  the key, and reversing the result. \<open>sort_key\<close> is a stable insertion sort.
\<close>

definition py_sorted_reverse :: "('a \<Rightarrow> real) \<Rightarrow> 'a list \<Rightarrow> 'a list" where
  "py_sorted_reverse key xs = rev (sort_key key (rev xs))"

definition ranked_resumes :: "string list \<Rightarrow> real list \<Rightarrow> (string \<times> real) list" where
  "ranked_resumes file_names scores = py_sorted_reverse snd (zip file_names scores)"

definition py_round :: "real \<Rightarrow> nat \<Rightarrow> real" where
  \<comment> \<open>\<^verbatim>\<open>round(x, ndigits)\<close>: to the nearest multiple of \<open>10 ^ -ndigits\<close>, a tie to the even
      one; exact, where the program rounds the float64 product \<open>x * 10 ^ ndigits\<close>\<close>
  "py_round x ndigits =
     (let y = x * 10 ^ ndigits; f = \<lfloor>y\<rfloor>; d = y - of_int f;
          r = (if d < 1 / 2 then f else if 1 / 2 < d then f + 1 else if even f then f else f + 1)
      in of_int r / 10 ^ ndigits)"

record result_row =
  rank :: nat
  resume_name :: string
  match_score :: real
  raw_score :: real

text \<open>
  The columns of \<^verbatim>\<open>results_df\<close>. \<open>match_score\<close> is the number printed in the
  \<^verbatim>\<open>"Match Score"\<close> column before the \<^verbatim>\<open>%\<close> sign.
\<close>

definition results_df :: "(string \<times> real) list \<Rightarrow> result_row list" where
  "results_df ranked =
     map2 (\<lambda>r (n, score).
            \<lparr>rank = r, resume_name = n, match_score = py_round (score * 100) 1,
             raw_score = py_round score 4\<rparr>)
          [1..<length ranked + 1] ranked"

fun process_uploads ::
  "string list \<times> string list \<times> string list \<Rightarrow> uploaded_file list \<Rightarrow>
   py_exception + string list \<times> string list \<times> string list" where
  \<comment> \<open>the \<^verbatim>\<open>for file in uploaded_files\<close> loop over \<open>(resumes, file_names, error_files)\<close>\<close>
  "process_uploads acc [] = Inr acc"
| "process_uploads (resumes, file_names, error_files) (file # files) =
     (case extract_text_from_pdf (reader file) of
        Inl e \<Rightarrow> Inl e
      | Inr text \<Rightarrow>
          if py_in ''Error extracting text'' text
          then process_uploads (resumes, file_names, error_files @ [name file]) files
          else process_uploads (resumes @ [text], file_names @ [name file], error_files) files)"

text \<open>
  What a run of the page shows and does after the inputs are read, in order. The
  layout calls (titles, markdown, the upload notice) are left out.
\<close>

datatype ui_event =
    Warning "string list"
  | Dataframe "result_row list"
  | BarChart "result_row list"
  | SaveRankingHistory string string string "result_row list"
  | DownloadButton string "result_row list"
  | Error string

text \<open>
  \<^verbatim>\<open>st.button(..., disabled=not (uploaded_files and job_description))\<close> is true in the
  run in which the user presses it; a disabled button cannot be pressed. \<open>clicked\<close> says
  that the user tries to press it. The result is the events of the run and the
  exception that ended it, if one did.
\<close>

definition show_dashboard ::
  "string \<Rightarrow> string \<Rightarrow> string \<Rightarrow> uploaded_file list \<Rightarrow> bool \<Rightarrow> ui_event list \<times> py_exception option" where
  "show_dashboard user_email job_title job_description uploaded_files clicked =
     (let disabled = \<not> (uploaded_files \<noteq> [] \<and> job_description \<noteq> []) in
      if clicked \<and> \<not> disabled then
        (case process_uploads ([], [], []) uploaded_files of
           Inl e \<Rightarrow> ([], Some e)
         | Inr (resumes, file_names, error_files) \<Rightarrow>
             (let warned = (if error_files \<noteq> [] then [Warning error_files] else []) in
              if resumes \<noteq> [] then
                (case rank_resumes job_description resumes of
                   Inl e \<Rightarrow> (warned, Some e)
                 | Inr scores \<Rightarrow>
                     (let results = results_df (ranked_resumes file_names scores) in
                      (warned @
                       [Dataframe results,
                        BarChart (take (min (length results) 10) results),
                        SaveRankingHistory user_email
                          (if job_title \<noteq> [] then job_title else ''Unnamed Job'')
                          job_description results,
                        DownloadButton ''ranked_resumes.csv'' results,
                        DownloadButton ''ranked_resumes.xlsx'' results],
                       None)))
              else (warned @ [Error ''No valid resumes to process''], None)))
      else ([], None))"

subsection \<open>Notions used in the statements\<close>

definition extracted :: "uploaded_file \<Rightarrow> string" where
  \<comment> \<open>the string \<^verbatim>\<open>extract_text_from_pdf\<close> returns for an upload\<close>
  "extracted file = (case extract_text_from_pdf (reader file) of Inl e \<Rightarrow> [] | Inr text \<Rightarrow> text)"

definition flagged :: "uploaded_file \<Rightarrow> bool" where
  \<comment> \<open>the test of the loop in \<^verbatim>\<open>show_dashboard\<close> on that string\<close>
  "flagged file = py_in ''Error extracting text'' (extracted file)"

section \<open>Properties\<close>

subsection \<open>Weights, norms and dot products\<close>

lemma df_le_length: "df docs t \<le> length docs"
  by (simp add: df_def)

lemma idf_ge_one: "1 \<le> idf docs t"
proof -
  have "1 + real (df docs t) \<le> 1 + real (length docs)"
    using df_le_length [of docs t] by simp
  then have "1 \<le> (1 + real (length docs)) / (1 + real (df docs t))"
    by (simp add: le_divide_eq)
  then have "0 \<le> ln ((1 + real (length docs)) / (1 + real (df docs t)))"
    by simp
  then show ?thesis by (simp add: idf_def)
qed

lemma tfidf_row_nonneg: "x \<in> set (tfidf_row docs d) \<Longrightarrow> 0 \<le> x"
proof -
  assume "x \<in> set (tfidf_row docs d)"
  then obtain t where x: "x = tf d t * idf docs t"
    by (auto simp: tfidf_row_def)
  have "0 \<le> idf docs t" using idf_ge_one [of docs t] by linarith
  moreover have "0 \<le> tf d t" by (simp add: tf_def)
  ultimately show ?thesis unfolding x by (rule mult_nonneg_nonneg [rotated])
qed

lemma sumsq_nonneg: "0 \<le> sum_list (map (\<lambda>x. x * x) (v :: real list))"
  by (induction v) auto

lemma l2_norm_nonneg: "0 \<le> l2_norm v"
  by (simp add: l2_norm_def sumsq_nonneg)

lemma l2_norm_zero_iff: "l2_norm v = 0 \<longleftrightarrow> (\<forall>x \<in> set v. x = 0)"
proof -
  have "sum_list (map (\<lambda>x. x * x) v) = 0 \<longleftrightarrow> (\<forall>x \<in> set v. x = 0)"
  proof (induction v)
    case Nil
    show ?case by simp
  next
    case (Cons a v)
    have "a * a + sum_list (map (\<lambda>x. x * x) v) = 0 \<longleftrightarrow> a * a = 0 \<and> sum_list (map (\<lambda>x. x * x) v) = 0"
      using sumsq_nonneg [of v] by (intro add_nonneg_eq_0_iff) auto
    with Cons show ?case by simp
  qed
  then show ?thesis by (simp add: l2_norm_def)
qed

lemma normalize_row_nonneg: "(\<And>x. x \<in> set v \<Longrightarrow> 0 \<le> x) \<Longrightarrow> y \<in> set (normalize_row v) \<Longrightarrow> 0 \<le> y"
  using l2_norm_nonneg [of v] by (auto simp: normalize_row_def Let_def)

lemma sumsq_div: "sum_list (map (\<lambda>x. x * x) (map (\<lambda>x. x / c) v)) = sum_list (map (\<lambda>x. x * x) v) / (c * c)" for c :: real
  by (induction v) (simp_all add: add_divide_distrib)

lemma sumsq_normalize_row:
  "sum_list (map (\<lambda>x. x * x) (normalize_row v)) = (if l2_norm v = 0 then 0 else 1)"
proof (cases "l2_norm v = 0")
  case True
  then have "normalize_row v = v" by (simp add: normalize_row_def)
  moreover from True have "sum_list (map (\<lambda>x. x * x) v) = 0"
    using sumsq_nonneg [of v] by (simp add: l2_norm_def)
  ultimately show ?thesis using True by simp
next
  case False
  have "l2_norm v * l2_norm v = sum_list (map (\<lambda>x. x * x) v)"
    using sumsq_nonneg [of v] by (simp add: l2_norm_def)
  moreover from this False have "sum_list (map (\<lambda>x. x * x) v) \<noteq> 0"
    by auto
  ultimately show ?thesis using False
    unfolding normalize_row_def Let_def sumsq_div by simp
qed

lemma l2_norm_normalize_row: "l2_norm (normalize_row v) = (if l2_norm v = 0 then 0 else 1)"
  by (simp add: l2_norm_def [of "normalize_row v"] sumsq_normalize_row)

lemma normalize_row_idem: "normalize_row (normalize_row v) = normalize_row v"
proof (cases "l2_norm v = 0")
  case True
  then have "normalize_row v = v" by (simp add: normalize_row_def)
  then show ?thesis by simp
next
  case False
  then have "l2_norm (normalize_row v) = 1" by (simp add: l2_norm_normalize_row)
  then show ?thesis by (simp add: normalize_row_def [of "normalize_row v"])
qed

lemma dot_nonneg: "(\<And>x. x \<in> set u \<Longrightarrow> 0 \<le> x) \<Longrightarrow> (\<And>y. y \<in> set v \<Longrightarrow> 0 \<le> y) \<Longrightarrow> 0 \<le> dot u v"
  unfolding dot_def
proof (induction u arbitrary: v)
  case Nil
  show ?case by simp
next
  case (Cons a u)
  show ?case
  proof (cases v)
    case Nil
    then show ?thesis by simp
  next
    case (Cons b w)
    have "0 \<le> a * b" using Cons.prems Cons by simp
    moreover have "0 \<le> sum_list (map2 (*) u w)"
      using Cons.prems Cons by (intro Cons.IH) auto
    ultimately show ?thesis using Cons by simp
  qed
qed

lemma dot_le_sumsq:
  "2 * dot u v \<le> sum_list (map (\<lambda>x. x * x) u) + sum_list (map (\<lambda>x. x * x) v)"
proof (induction u arbitrary: v)
  case Nil
  show ?case using sumsq_nonneg [of v] by (simp add: dot_def)
next
  case (Cons a u)
  show ?case
  proof (cases v)
    case Nil
    then show ?thesis using sumsq_nonneg [of "a # u"] by (simp add: dot_def)
  next
    case (Cons b w)
    have "2 * (a * b) \<le> a * a + b * b"
      using sum_squares_bound [of a b] by (simp add: power2_eq_square)
    moreover have "2 * dot u w \<le> sum_list (map (\<lambda>x. x * x) u) + sum_list (map (\<lambda>x. x * x) w)"
      by (rule Cons.IH)
    ultimately show ?thesis using Cons by (simp add: dot_def algebra_simps)
  qed
qed

lemma dot_normalize_row_le_one: "dot (normalize_row u) (normalize_row v) \<le> 1"
proof -
  have "2 * dot (normalize_row u) (normalize_row v) \<le> 2"
    using dot_le_sumsq [of "normalize_row u" "normalize_row v"]
    by (simp add: sumsq_normalize_row split: if_splits)
  then show ?thesis by simp
qed

lemma dot_self: "dot v v = sum_list (map (\<lambda>x. x * x) v)"
  by (induction v) (auto simp: dot_def)

lemma dot_normalize_row_self: "l2_norm v \<noteq> 0 \<Longrightarrow> dot (normalize_row v) (normalize_row v) = 1"
  by (simp add: dot_self sumsq_normalize_row)

lemma dot_zero_left: "(\<And>x. x \<in> set u \<Longrightarrow> x = 0) \<Longrightarrow> dot u v = 0"
  unfolding dot_def
proof (induction u arbitrary: v)
  case Nil
  show ?case by simp
next
  case (Cons a u)
  then show ?case by (cases v) auto
qed

lemma dot_commute: "dot u v = dot v u"
  unfolding dot_def
proof (induction u arbitrary: v)
  case Nil
  show ?case by simp
next
  case (Cons a u)
  then show ?case by (cases v) (auto simp: mult.commute)
qed

lemma set_vocabulary: "set (vocabulary docs) = (\<Union>d \<in> set docs. set d)"
  by (simp add: vocabulary_def)

lemma vocabulary_empty_iff: "vocabulary docs = [] \<longleftrightarrow> (\<forall>d \<in> set docs. d = [])"
proof -
  have "vocabulary docs = [] \<longleftrightarrow> set (vocabulary docs) = {}" by simp
  then show ?thesis unfolding set_vocabulary by auto
qed

lemma rank_resumes_eq:
  "rank_resumes job_description resumes =
     (if vocabulary (map analyze (job_description # resumes)) = []
      then Inl (ValueError ''empty vocabulary; perhaps the documents only contain stop words'')
      else if resumes = []
      then Inl (ValueError ''Found array with 0 sample(s) while a minimum of 1 is required.'')
      else Inr (map (\<lambda>r. dot (normalize_row (tfidf_row (map analyze (job_description # resumes)) (analyze job_description)))
                              (normalize_row (tfidf_row (map analyze (job_description # resumes)) (analyze r))))
                    resumes))"
  by (simp add: rank_resumes_def fit_transform_def cosine_similarity_def normalize_row_idem o_def Let_def)

lemma tf_pos: "t \<in> set d \<Longrightarrow> 1 \<le> tf d t"
proof -
  assume "t \<in> set d"
  then have "0 < count_list d t" using count_list_0_iff [of d t] by auto
  then show ?thesis by (simp add: tf_def)
qed

lemma tf_zero: "t \<notin> set d \<Longrightarrow> tf d t = 0"
  by (simp add: tf_def count_list_0_iff)

lemma weight_pos: "t \<in> set d \<Longrightarrow> 1 \<le> tf d t * idf docs t"
  using mult_mono [of 1 "tf d t" 1 "idf docs t"] tf_pos [of t d] idf_ge_one [of docs t] by simp

lemma tfidf_row_norm_pos:
  assumes "d \<in> set docs" "d \<noteq> []"
  shows "l2_norm (tfidf_row docs d) \<noteq> 0"
proof -
  from assms(2) obtain t where t: "t \<in> set d" by (cases d) auto
  with assms(1) have "t \<in> set (vocabulary docs)" by (auto simp: set_vocabulary)
  then have "tf d t * idf docs t \<in> set (tfidf_row docs d)" by (simp add: tfidf_row_def)
  moreover have "tf d t * idf docs t \<noteq> 0" using weight_pos [OF t, of docs] by linarith
  ultimately show ?thesis unfolding l2_norm_zero_iff by blast
qed

lemma tfidf_row_Nil: "x \<in> set (tfidf_row docs []) \<Longrightarrow> x = 0"
  by (auto simp: tfidf_row_def tf_def)

lemma dot_map: "dot (map f xs) (map g xs) = sum_list (map (\<lambda>t. f t * g t) xs)"
  by (induction xs) (simp_all add: dot_def)

lemma dot_disjoint:
  assumes "set q \<inter> set d = {}"
  shows "dot (normalize_row (tfidf_row docs q)) (normalize_row (tfidf_row docs d)) = 0"
proof -
  have "tf q t * tf d t = 0" for t
    using assms tf_zero [of t q] tf_zero [of t d] by (cases "t \<in> set q") auto
  then have z: "tf q t * idf docs t / a * (tf d t * idf docs t / b) = 0" for t a b
    by (metis divide_eq_0_iff mult_eq_0_iff)
  show ?thesis
    unfolding normalize_row_def Let_def tfidf_row_def map_map o_def dot_map z by simp
qed

subsection \<open>rank_resumes on texts without a token\<close>

text \<open>
  C8. \<^verbatim>\<open>rank_resumes\<close> is not total: when neither the job description nor any resume
  has a token (a run of at least two word characters), fitting the vectorizer raises
  \<^verbatim>\<open>ValueError\<close> (empty vocabulary), whatever the length of the texts; the call returns
  no score list. Texts of punctuation or of isolated single characters are such
  inputs, as the instance below shows.
\<close>

theorem rank_resumes_raises_without_tokens:
  assumes "analyze job_description = []" and "\<forall>r \<in> set resumes. analyze r = []"
  shows "rank_resumes job_description resumes =
           Inl (ValueError ''empty vocabulary; perhaps the documents only contain stop words'')"
proof -
  have "vocabulary (map analyze (job_description # resumes)) = []"
    unfolding vocabulary_empty_iff using assms by simp
  then show ?thesis by (simp add: rank_resumes_eq)
qed

theorem rank_resumes_raises_without_tokens_witness:
  "''?!'' \<noteq> [] \<and> analyze ''?!'' = [] \<and>
   ''a b c'' \<noteq> [] \<and> analyze ''a b c'' = [] \<and>
   ''...'' \<noteq> [] \<and> analyze ''...'' = [] \<and>
   rank_resumes ''?!'' [''a b c'', ''...''] =
     Inl (ValueError ''empty vocabulary; perhaps the documents only contain stop words'')"
proof -
  have a: "analyze ''?!'' = []" by code_simp
  have b: "analyze ''a b c'' = []" by code_simp
  have c: "analyze ''...'' = []" by code_simp
  from b c have rs: "\<forall>r \<in> set [''a b c'', ''...'']. analyze r = []" by simp
  show ?thesis
    using rank_resumes_raises_without_tokens [OF a rs] a b c by simp
qed

subsection \<open>Text extraction\<close>

lemma extract_pages_texts:
  "extract_pages s (map Inr texts) =
     Inr (s @ concat (map (\<lambda>t. t @ [CHR 0x0A]) (filter (\<lambda>t. t \<noteq> []) texts)))"
  by (induction texts arbitrary: s) simp_all

lemma extract_pages_raises:
  "extract_pages s (map Inr texts @ Inl e # pages) = Inl e"
  by (induction texts arbitrary: s) simp_all

lemma extract_text_from_pdf_extracted: "extract_text_from_pdf (reader f) = Inr (extracted f)"
  by (simp add: extracted_def extract_text_from_pdf_def split: sum.splits)

lemma concat_lines_empty_iff:
  "concat (map (\<lambda>t. t @ [CHR 0x0A]) (filter (\<lambda>t. t \<noteq> []) texts)) = [] \<longleftrightarrow> (\<forall>t \<in> set texts. t = [])"
proof -
  have "concat (map (\<lambda>t. t @ [CHR 0x0A]) ys) = [] \<longleftrightarrow> ys = []" for ys :: "string list"
    by (cases ys) auto
  then show ?thesis by (auto simp: filter_empty_conv)
qed

lemma process_uploads_eq:
  "process_uploads (resumes, file_names, error_files) files =
     Inr (resumes @ map extracted (filter (\<lambda>f. \<not> flagged f) files),
          file_names @ map name (filter (\<lambda>f. \<not> flagged f) files),
          error_files @ map name (filter flagged files))"
proof (induction files arbitrary: resumes file_names error_files)
  case Nil
  show ?case by simp
next
  case (Cons f fs)
  show ?case
    by (simp add: extract_text_from_pdf_extracted Cons.IH flagged_def)
qed

text \<open>
  C10. \<^verbatim>\<open>extract_text_from_pdf\<close> always returns a string and never raises: when
  \<^verbatim>\<open>PdfReader\<close> raises, or a page raises after any number of pages were read, the
  result is \<^verbatim>\<open>"Error extracting text: "\<close> followed by the exception's message; when
  every page yields the empty string the result is \<^verbatim>\<open>"No readable text found."\<close>;
  otherwise it is the stripped concatenation of the non-empty page texts, each followed
  by a newline. The loop over the uploads therefore always runs to its end, and every
  upload ends in exactly one of \<open>file_names\<close> and \<open>error_files\<close>.
\<close>

theorem extract_text_from_pdf_total:
  "(\<exists>s. extract_text_from_pdf file = Inr s) \<and>
   extract_text_from_pdf (Inl e) = Inr (''Error extracting text: '' @ str_of_exception e) \<and>
   extract_text_from_pdf (Inr (map Inr texts @ Inl e # pages)) =
     Inr (''Error extracting text: '' @ str_of_exception e) \<and>
   ((\<forall>t \<in> set texts. t = []) \<longrightarrow>
      extract_text_from_pdf (Inr (map Inr texts)) = Inr ''No readable text found.'') \<and>
   ((\<exists>t \<in> set texts. t \<noteq> []) \<longrightarrow>
      extract_text_from_pdf (Inr (map Inr texts)) =
        Inr (py_strip (concat (map (\<lambda>t. t @ [CHR 0x0A]) (filter (\<lambda>t. t \<noteq> []) texts))))) \<and>
   (\<exists>resumes file_names error_files.
      process_uploads ([], [], []) files = Inr (resumes, file_names, error_files) \<and>
      length resumes = length file_names \<and>
      length file_names + length error_files = length files)"
proof (intro conjI impI)
  show "\<exists>s. extract_text_from_pdf file = Inr s"
    by (simp add: extract_text_from_pdf_def split: sum.splits)
next
  show "extract_text_from_pdf (Inl e) = Inr (''Error extracting text: '' @ str_of_exception e)"
    by (simp add: extract_text_from_pdf_def extract_try_def)
next
  show "extract_text_from_pdf (Inr (map Inr texts @ Inl e # pages)) =
      Inr (''Error extracting text: '' @ str_of_exception e)"
    by (simp add: extract_text_from_pdf_def extract_try_def extract_pages_raises)
next
  assume "\<forall>t \<in> set texts. t = []"
  then show "extract_text_from_pdf (Inr (map Inr texts)) = Inr ''No readable text found.''"
    by (simp add: extract_text_from_pdf_def extract_try_def extract_pages_texts concat_lines_empty_iff)
next
  assume "\<exists>t \<in> set texts. t \<noteq> []"
  then have "concat (map (\<lambda>t. t @ [CHR 0x0A]) (filter (\<lambda>t. t \<noteq> []) texts)) \<noteq> []"
    unfolding concat_lines_empty_iff by auto
  then show "extract_text_from_pdf (Inr (map Inr texts)) =
      Inr (py_strip (concat (map (\<lambda>t. t @ [CHR 0x0A]) (filter (\<lambda>t. t \<noteq> []) texts))))"
    by (simp add: extract_text_from_pdf_def extract_try_def extract_pages_texts)
next
  have "length (filter (\<lambda>f. \<not> flagged f) files) + length (filter flagged files) = length files"
    using sum_length_filter_compl [of flagged files] by simp
  then show "\<exists>resumes file_names error_files.
      process_uploads ([], [], []) files = Inr (resumes, file_names, error_files) \<and>
      length resumes = length file_names \<and>
      length file_names + length error_files = length files"
    by (simp add: process_uploads_eq)
qed

theorem extract_text_from_pdf_total_witness:
  "extract_text_from_pdf (Inl (OtherException ''EOF marker not found'')) =
     Inr ''Error extracting text: EOF marker not found'' \<and>
   extract_text_from_pdf (Inr [Inr ''Jane Doe'', Inl (ValueError ''bad xref'')]) =
     Inr ''Error extracting text: bad xref'' \<and>
   extract_text_from_pdf (Inr [Inr '''', Inr '''']) = Inr ''No readable text found.'' \<and>
   extract_text_from_pdf (Inr [Inr '' Jane Doe'', Inr '''', Inr ''Python '']) =
     Inr (''Jane Doe'' @ [CHR 0x0A] @ ''Python'')"
proof -
  have s: "py_strip ('' Jane Doe'' @ [CHR 0x0A] @ ''Python '' @ [CHR 0x0A]) = ''Jane Doe'' @ [CHR 0x0A] @ ''Python''"
    by code_simp
  show ?thesis
    using extract_text_from_pdf_total [of "Inl (OtherException ''EOF marker not found'')"
        "OtherException ''EOF marker not found''" "['''', '''']" "[]" "[]"]
      extract_text_from_pdf_total [of "Inr []" "ValueError ''bad xref''" "[''Jane Doe'']" "[]" "[]"]
      extract_text_from_pdf_total [of "Inr []" "ValueError ''bad xref''" "['' Jane Doe'', '''', ''Python '']" "[]" "[]"]
      s
    by simp
qed

subsection \<open>The classification of uploads\<close>

lemma extracted_eq:
  "extracted f =
     (case extract_try (reader f) of
        Inl e \<Rightarrow> ''Error extracting text: '' @ str_of_exception e
      | Inr s \<Rightarrow> s)"
  by (simp add: extracted_def extract_text_from_pdf_def split: sum.splits)

lemma flagged_if_raises: "extract_try (reader f) = Inl e \<Longrightarrow> flagged f"
proof -
  assume "extract_try (reader f) = Inl e"
  then have "extracted f = ''Error extracting text'' @ '': '' @ str_of_exception e"
    by (simp add: extracted_eq)
  then show ?thesis by (simp add: flagged_def py_in_def)
qed

lemma process_uploads_insert_flagged:
  assumes "flagged f"
  shows "process_uploads ([], [], []) (before @ f # after) =
           Inr (map extracted (filter (\<lambda>f. \<not> flagged f) (before @ after)),
                map name (filter (\<lambda>f. \<not> flagged f) (before @ after)),
                map name (filter flagged before) @ name f # map name (filter flagged after))"
  using assms by (simp add: process_uploads_eq)

lemma show_dashboard_only_flagged:
  assumes "flagged f" and "job_description \<noteq> []"
  shows "show_dashboard user_email job_title job_description [f] True =
           ([Warning [name f], Error ''No valid resumes to process''], None)"
  using assms by (simp add: show_dashboard_def process_uploads_eq)

text \<open>
  C9. Whether an upload is scored is decided by the substring test alone. An upload
  whose extraction succeeded (the \<^verbatim>\<open>try\<close> body returned the text \<open>s\<close>) and
  whose text contains \<^verbatim>\<open>"Error extracting text"\<close> is put in \<open>error_files\<close>: the resumes
  and file names passed on to scoring are those of the same uploads without it, and
  uploaded alone it ends the run with "No valid resumes to process".
\<close>

theorem text_with_marker_is_excluded:
  assumes "extract_try (reader f) = Inr s" and "py_in ''Error extracting text'' s"
    and "process_uploads ([], [], []) (before @ after) = Inr (resumes, file_names, error_files)"
  shows "(\<exists>error_files'.
            process_uploads ([], [], []) (before @ f # after) = Inr (resumes, file_names, error_files') \<and>
            name f \<in> set error_files' \<and> length error_files' = Suc (length error_files)) \<and>
         (job_description \<noteq> [] \<longrightarrow>
            show_dashboard user_email job_title job_description [f] True =
              ([Warning [name f], Error ''No valid resumes to process''], None))"
proof -
  from assms(1,2) have fl: "flagged f"
    by (simp add: flagged_def extracted_eq)
  from assms(3) have
    "resumes = map extracted (filter (\<lambda>f. \<not> flagged f) (before @ after))"
    "file_names = map name (filter (\<lambda>f. \<not> flagged f) (before @ after))"
    "error_files = map name (filter flagged (before @ after))"
    by (simp_all add: process_uploads_eq)
  then have "\<exists>error_files'.
            process_uploads ([], [], []) (before @ f # after) = Inr (resumes, file_names, error_files') \<and>
            name f \<in> set error_files' \<and> length error_files' = Suc (length error_files)"
    using fl by (simp add: process_uploads_insert_flagged)
  then show ?thesis using show_dashboard_only_flagged [OF fl] by simp
qed

theorem text_with_marker_is_excluded_witness:
  "extract_try (Inr [Inr ''Debugged Error extracting text failures in OCR'']) =
     Inr ''Debugged Error extracting text failures in OCR'' \<and>
   py_in ''Error extracting text'' ''Debugged Error extracting text failures in OCR'' \<and>
   process_uploads ([], [], [])
     [\<lparr>name = ''a.pdf'', reader = Inr [Inr ''python developer'']\<rparr>] =
     Inr ([''python developer''], [''a.pdf''], []) \<and>
   process_uploads ([], [], [])
     [\<lparr>name = ''a.pdf'', reader = Inr [Inr ''python developer'']\<rparr>,
      \<lparr>name = ''b.pdf'', reader = Inr [Inr ''Debugged Error extracting text failures in OCR'']\<rparr>] =
     Inr ([''python developer''], [''a.pdf''], [''b.pdf'']) \<and>
   show_dashboard ''hr@example.com'' ''Engineer'' ''python developer''
     [\<lparr>name = ''b.pdf'', reader = Inr [Inr ''Debugged Error extracting text failures in OCR'']\<rparr>] True =
     ([Warning [''b.pdf''], Error ''No valid resumes to process''], None)"
proof -
  let ?a = "\<lparr>name = ''a.pdf'', reader = Inr [Inr ''python developer'']\<rparr>"
  let ?b = "\<lparr>name = ''b.pdf'', reader = Inr [Inr ''Debugged Error extracting text failures in OCR'']\<rparr>"
  have e': "extract_try (Inr [Inr ''Debugged Error extracting text failures in OCR'']) =
      Inr ''Debugged Error extracting text failures in OCR''"
    by code_simp
  then have e: "extract_try (reader ?b) = Inr ''Debugged Error extracting text failures in OCR''"
    by simp
  have m: "py_in ''Error extracting text'' ''Debugged Error extracting text failures in OCR''"
    by code_simp
  have p': "process_uploads ([], [], []) [?a] = Inr ([''python developer''], [''a.pdf''], [])"
    by code_simp
  then have p: "process_uploads ([], [], []) ([?a] @ []) = Inr ([''python developer''], [''a.pdf''], [])"
    by (simp only: append_Nil2)
  note t = text_with_marker_is_excluded [OF e m p, of "''python developer''" "''hr@example.com''" "''Engineer''"]
  from t obtain es where
    q1: "process_uploads ([], [], []) ([?a] @ ?b # []) = Inr ([''python developer''], [''a.pdf''], es)"
    and q2: "name ?b \<in> set es" and q3: "length es = Suc (length ([] :: string list))"
    by blast
  from q2 q3 have "es = [''b.pdf'']" by (cases es) auto
  with q1 have q: "process_uploads ([], [], []) [?a, ?b] = Inr ([''python developer''], [''a.pdf''], [''b.pdf''])"
    by (simp only: append.simps)
  have "''python developer'' \<noteq> []" by simp
  with t have d: "show_dashboard ''hr@example.com'' ''Engineer'' ''python developer'' [?b] True =
      ([Warning [name ?b], Error ''No valid resumes to process''], None)"
    by blast
  then have d': "show_dashboard ''hr@example.com'' ''Engineer'' ''python developer'' [?b] True =
      ([Warning [''b.pdf''], Error ''No valid resumes to process''], None)"
    by (simp only: uploaded_file.select_convs)
  from e' m p' q d' show ?thesis by (intro conjI)
qed

subsection \<open>Sorting with reverse=True\<close>

lemma insort_key_map: "insort_key f (g x) (map g xs) = map g (insort_key (\<lambda>a. f (g a)) x xs)"
  by (induction xs) simp_all

lemma sort_key_map: "sort_key f (map g xs) = map g (sort_key (\<lambda>a. f (g a)) xs)"
  by (induction xs) (simp_all add: insort_key_map)

lemma py_sorted_reverse_map:
  "py_sorted_reverse f (map g xs) = map g (py_sorted_reverse (\<lambda>a. f (g a)) xs)"
  by (simp add: py_sorted_reverse_def rev_map sort_key_map)

lemma sorted_wrt_insort_key_stable:
  fixes f :: "'a \<Rightarrow> real"
  assumes "sorted_wrt (\<lambda>a b. f a < f b \<or> (f a = f b \<and> R a b)) ys"
    and "\<forall>y \<in> set ys. R x y"
  shows "sorted_wrt (\<lambda>a b. f a < f b \<or> (f a = f b \<and> R a b)) (insort_key f x ys)"
  using assms
proof (induction ys)
  case Nil
  show ?case by simp
next
  case (Cons y ys)
  show ?case
  proof (cases "f x \<le> f y")
    case True
    have "f x < f z \<or> (f x = f z \<and> R x z)" if "z \<in> set (y # ys)" for z
    proof -
      have "f y \<le> f z" using Cons.prems(1) that by auto
      with True have "f x \<le> f z" by simp
      moreover have "R x z" using Cons.prems(2) that by auto
      ultimately show ?thesis by auto
    qed
    with True Cons.prems(1) show ?thesis by simp
  next
    case False
    have "sorted_wrt (\<lambda>a b. f a < f b \<or> (f a = f b \<and> R a b)) (insort_key f x ys)"
      using Cons by simp
    moreover have "f y < f z \<or> (f y = f z \<and> R y z)" if "z \<in> set (insort_key f x ys)" for z
      using that Cons.prems(1) False by (auto simp: set_insort_key)
    ultimately show ?thesis using False by simp
  qed
qed

lemma sorted_wrt_sort_key_stable:
  fixes f :: "'a \<Rightarrow> real"
  assumes "sorted_wrt R xs"
  shows "sorted_wrt (\<lambda>a b. f a < f b \<or> (f a = f b \<and> R a b)) (sort_key f xs)"
  using assms
proof (induction xs)
  case Nil
  show ?case by simp
next
  case (Cons x xs)
  then have "sorted_wrt (\<lambda>a b. f a < f b \<or> (f a = f b \<and> R a b)) (sort_key f xs)"
    and "\<forall>y \<in> set (sort_key f xs). R x y"
    by simp_all
  then show ?case by (simp add: sorted_wrt_insort_key_stable)
qed

lemma sorted_wrt_py_sorted_reverse:
  fixes f :: "'a \<Rightarrow> real"
  assumes "sorted_wrt R xs"
  shows "sorted_wrt (\<lambda>a b. f b < f a \<or> (f a = f b \<and> R a b)) (py_sorted_reverse f xs)"
proof -
  have "sorted_wrt (\<lambda>a b. R b a) (rev xs)"
    using assms by (simp add: sorted_wrt_rev)
  then have "sorted_wrt (\<lambda>a b. f a < f b \<or> (f a = f b \<and> R b a)) (sort_key f (rev xs))"
    by (rule sorted_wrt_sort_key_stable)
  then have "sorted_wrt (\<lambda>b a. f a < f b \<or> (f a = f b \<and> R b a)) (rev (sort_key f (rev xs)))"
    by (simp add: sorted_wrt_rev)
  then show ?thesis
    unfolding py_sorted_reverse_def by (rule sorted_wrt_mono_rel [rotated]) auto
qed

lemma set_py_sorted_reverse: "set (py_sorted_reverse f xs) = set xs"
  by (simp add: py_sorted_reverse_def)

lemma distinct_py_sorted_reverse: "distinct (py_sorted_reverse f xs) = distinct xs"
  by (simp add: py_sorted_reverse_def)

lemma length_py_sorted_reverse: "length (py_sorted_reverse f xs) = length xs"
  by (simp add: py_sorted_reverse_def)

lemma zip_as_map_nth:
  "zip xs ys = map (\<lambda>i. (xs ! i, ys ! i)) [0..<min (length xs) (length ys)]"
  by (rule nth_equalityI) simp_all

lemma ranked_resumes_as_order:
  "ranked_resumes file_names scores =
     map (\<lambda>i. (file_names ! i, scores ! i))
       (py_sorted_reverse (\<lambda>i. scores ! i) [0..<min (length file_names) (length scores)])"
  unfolding ranked_resumes_def
  by (subst zip_as_map_nth) (simp add: py_sorted_reverse_map)

lemma py_round_mono:
  assumes "x \<le> y"
  shows "py_round x k \<le> py_round y k"
proof -
  define a where "a = x * 10 ^ k"
  define b where "b = y * 10 ^ k"
  define r :: "real \<Rightarrow> int" where
    "r = (\<lambda>u. if u - of_int \<lfloor>u\<rfloor> < 1 / 2 then \<lfloor>u\<rfloor>
              else if 1 / 2 < u - of_int \<lfloor>u\<rfloor> then \<lfloor>u\<rfloor> + 1
              else if even \<lfloor>u\<rfloor> then \<lfloor>u\<rfloor> else \<lfloor>u\<rfloor> + 1)"
  have ab: "a \<le> b" using assms by (simp add: a_def b_def)
  have lo: "\<lfloor>u\<rfloor> \<le> r u" and hi: "r u \<le> \<lfloor>u\<rfloor> + 1" for u
    by (simp_all add: r_def)
  have "r a \<le> r b"
  proof (cases "\<lfloor>a\<rfloor> = \<lfloor>b\<rfloor>")
    case True
    with ab have "a - of_int \<lfloor>a\<rfloor> \<le> b - of_int \<lfloor>b\<rfloor>" by simp
    with True show ?thesis by (auto simp: r_def)
  next
    case False
    with ab have "\<lfloor>a\<rfloor> < \<lfloor>b\<rfloor>" using floor_mono [OF ab] by linarith
    then have "r a \<le> \<lfloor>b\<rfloor>" using hi [of a] by linarith
    then show ?thesis using lo [of b] by linarith
  qed
  then have "(of_int (r a) :: real) / 10 ^ k \<le> of_int (r b) / 10 ^ k"
    by (simp add: divide_right_mono)
  then show ?thesis
    by (simp add: py_round_def Let_def a_def b_def r_def)
qed

lemma rows_columns:
  assumes "length rs = length ps"
  shows "map rank (map2 (\<lambda>r (n, score). \<lparr>rank = r, resume_name = n,
             match_score = py_round (score * 100) 1, raw_score = py_round score 4\<rparr>) rs ps) = rs"
    and "map resume_name (map2 (\<lambda>r (n, score). \<lparr>rank = r, resume_name = n,
             match_score = py_round (score * 100) 1, raw_score = py_round score 4\<rparr>) rs ps) = map fst ps"
    and "map match_score (map2 (\<lambda>r (n, score). \<lparr>rank = r, resume_name = n,
             match_score = py_round (score * 100) 1, raw_score = py_round score 4\<rparr>) rs ps) =
           map (\<lambda>p. py_round (snd p * 100) 1) ps"
    and "map raw_score (map2 (\<lambda>r (n, score). \<lparr>rank = r, resume_name = n,
             match_score = py_round (score * 100) 1, raw_score = py_round score 4\<rparr>) rs ps) =
           map (\<lambda>p. py_round (snd p) 4) ps"
  using assms by (induction rs ps rule: list_induct2) auto

lemma results_df_columns:
  "map rank (results_df ranked) = [1..<length ranked + 1]"
  "map resume_name (results_df ranked) = map fst ranked"
  "map match_score (results_df ranked) = map (\<lambda>p. py_round (snd p * 100) 1) ranked"
  "map raw_score (results_df ranked) = map (\<lambda>p. py_round (snd p) 4) ranked"
proof -
  have "length [1..<length ranked + 1] = length ranked"
    by (simp only: length_upt add_diff_cancel_right')
  then show
    "map rank (results_df ranked) = [1..<length ranked + 1]"
    "map resume_name (results_df ranked) = map fst ranked"
    "map match_score (results_df ranked) = map (\<lambda>p. py_round (snd p * 100) 1) ranked"
    "map raw_score (results_df ranked) = map (\<lambda>p. py_round (snd p) 4) ranked"
    unfolding results_df_def by (rule rows_columns)+
qed

subsection \<open>The ranking\<close>

text \<open>
  C2. The ranking assembled from the file names and their scores lists the uploads in
  an order of their submission indices \<open>0, ..., n - 1\<close> (each exactly once) that is
  sorted by descending score and, between equal scores, by ascending submission index.
  The ranks are \<open>1, ..., n\<close> in this order, hence strictly increasing, and the scores,
  unrounded and as rounded for the \<^verbatim>\<open>"Raw Score"\<close> column, do not increase along
  the ranking.
\<close>

theorem ranking_sorted_by_score_then_submission:
  "\<exists>order.
     distinct order \<and>
     set order = {0..<min (length file_names) (length scores)} \<and>
     ranked_resumes file_names scores = map (\<lambda>i. (file_names ! i, scores ! i)) order \<and>
     sorted_wrt (\<lambda>i j. scores ! j < scores ! i \<or> (scores ! i = scores ! j \<and> i < j)) order \<and>
     map rank (results_df (ranked_resumes file_names scores)) =
       [1..<min (length file_names) (length scores) + 1] \<and>
     sorted_wrt (<) (map rank (results_df (ranked_resumes file_names scores))) \<and>
     map resume_name (results_df (ranked_resumes file_names scores)) = map (\<lambda>i. file_names ! i) order \<and>
     map raw_score (results_df (ranked_resumes file_names scores)) = map (\<lambda>i. py_round (scores ! i) 4) order \<and>
     sorted_wrt (\<lambda>a b. b \<le> a) (map snd (ranked_resumes file_names scores)) \<and>
     sorted_wrt (\<lambda>a b. b \<le> a) (map raw_score (results_df (ranked_resumes file_names scores)))"
proof -
  define n where "n = min (length file_names) (length scores)"
  define order where "order = py_sorted_reverse (\<lambda>i. scores ! i) [0..<n]"
  let ?ranked = "ranked_resumes file_names scores"
  have r: "?ranked = map (\<lambda>i. (file_names ! i, scores ! i)) order"
    by (simp add: ranked_resumes_as_order order_def n_def)
  have len: "length ?ranked = n"
    by (simp add: r order_def length_py_sorted_reverse)
  have d: "distinct order"
    by (simp add: order_def distinct_py_sorted_reverse)
  have s: "set order = {0..<n}"
    by (simp add: order_def set_py_sorted_reverse)
  have "sorted_wrt (<) [0..<n]" by simp
  then have o: "sorted_wrt (\<lambda>i j. scores ! j < scores ! i \<or> (scores ! i = scores ! j \<and> i < j)) order"
    unfolding order_def by (rule sorted_wrt_py_sorted_reverse)
  have rk: "map rank (results_df ?ranked) = [1..<n + 1]"
    by (simp only: results_df_columns len)
  have rk_sorted: "sorted_wrt (<) (map rank (results_df ?ranked))"
    unfolding rk by (rule sorted_wrt_upt)
  have nm: "map resume_name (results_df ?ranked) = map (\<lambda>i. file_names ! i) order"
    by (simp add: results_df_columns r o_def)
  have rs: "map raw_score (results_df ?ranked) = map (\<lambda>i. py_round (scores ! i) 4) order"
    by (simp add: results_df_columns r o_def)
  have sc: "map snd ?ranked = map (\<lambda>i. scores ! i) order"
    by (simp add: r o_def)
  have desc: "sorted_wrt (\<lambda>i j. scores ! j \<le> scores ! i) order"
    using o by (rule sorted_wrt_mono_rel [rotated]) auto
  then have s1: "sorted_wrt (\<lambda>a b. b \<le> a) (map snd ?ranked)"
    by (simp add: sc sorted_wrt_map)
  have "sorted_wrt (\<lambda>i j. py_round (scores ! j) 4 \<le> py_round (scores ! i) 4) order"
    using desc by (rule sorted_wrt_mono_rel [rotated]) (rule py_round_mono)
  then have s2: "sorted_wrt (\<lambda>a b. b \<le> a) (map raw_score (results_df ?ranked))"
    by (simp add: rs sorted_wrt_map)
  from d s r o rk rk_sorted nm rs s1 s2 show ?thesis
    unfolding n_def by blast
qed

theorem ranking_sorted_by_score_then_submission_witness:
  "ranked_resumes [''a.pdf'', ''b.pdf'', ''c.pdf''] [1 / 2, 9 / 10, 1 / 2] =
     [(''b.pdf'', 9 / 10), (''a.pdf'', 1 / 2), (''c.pdf'', 1 / 2)] \<and>
   map rank (results_df (ranked_resumes [''a.pdf'', ''b.pdf'', ''c.pdf''] [1 / 2, 9 / 10, 1 / 2])) = [1, 2, 3] \<and>
   sorted_wrt (\<lambda>a b. b \<le> a)
     (map raw_score (results_df (ranked_resumes [''a.pdf'', ''b.pdf'', ''c.pdf''] [1 / 2, 9 / 10, 1 / 2])))"
proof -
  let ?names = "[''a.pdf'', ''b.pdf'', ''c.pdf'']"
  let ?scores = "[1 / 2, 9 / 10, 1 / 2] :: real list"
  have e: "ranked_resumes ?names ?scores = [(''b.pdf'', 9 / 10), (''a.pdf'', 1 / 2), (''c.pdf'', 1 / 2)]"
    by (simp add: ranked_resumes_def py_sorted_reverse_def)
  from ranking_sorted_by_score_then_submission [of ?names ?scores]
  have r: "map rank (results_df (ranked_resumes ?names ?scores)) = [1..<min (length ?names) (length ?scores) + 1]"
    and s: "sorted_wrt (\<lambda>a b. b \<le> a) (map raw_score (results_df (ranked_resumes ?names ?scores)))"
    by blast+
  have "[1..<min (length ?names) (length ?scores) + 1] = [1, 2, 3]"
    by (simp add: upt_rec)
  with r have r': "map rank (results_df (ranked_resumes ?names ?scores)) = [1, 2, 3]"
    by (simp only:)
  from e r' s show ?thesis by (intro conjI)
qed

subsection \<open>Runs of the dashboard\<close>

lemma py_round_zero: "py_round 0 k = 0"
  by (simp add: py_round_def)

lemma show_dashboard_ranked:
  assumes "uploaded_files \<noteq> []" and "job_description \<noteq> []"
    and "process_uploads ([], [], []) uploaded_files = Inr (resumes, file_names, error_files)"
    and "resumes \<noteq> []"
    and "rank_resumes job_description resumes = Inr scores"
    and "results_df (ranked_resumes file_names scores) = results"
  shows "show_dashboard user_email job_title job_description uploaded_files True =
           ((if error_files \<noteq> [] then [Warning error_files] else []) @
            [Dataframe results,
             BarChart (take (min (length results) 10) results),
             SaveRankingHistory user_email (if job_title \<noteq> [] then job_title else ''Unnamed Job'')
               job_description results,
             DownloadButton ''ranked_resumes.csv'' results,
             DownloadButton ''ranked_resumes.xlsx'' results],
            None)"
  using assms by (simp add: show_dashboard_def Let_def)

lemma show_dashboard_all_flagged:
  assumes "uploaded_files \<noteq> []" and "job_description \<noteq> []"
    and "\<forall>f \<in> set uploaded_files. flagged f"
  shows "show_dashboard user_email job_title job_description uploaded_files True =
           ([Warning (map name uploaded_files), Error ''No valid resumes to process''], None)"
proof -
  from assms(3) have "filter flagged uploaded_files = uploaded_files"
    and "filter (\<lambda>f. \<not> flagged f) uploaded_files = []"
    by (simp_all add: filter_empty_conv)
  then have "process_uploads ([], [], []) uploaded_files = Inr ([], [], map name uploaded_files)"
    by (simp add: process_uploads_eq)
  with assms(1,2) show ?thesis by (simp add: show_dashboard_def)
qed

lemma rows_of_two_zero_scores:
  "results_df (ranked_resumes [a, b] [0, 0]) =
     [\<lparr>rank = 1, resume_name = a, match_score = 0, raw_score = 0\<rparr>,
      \<lparr>rank = 2, resume_name = b, match_score = 0, raw_score = 0\<rparr>]"
  by (simp add: results_df_def ranked_resumes_def py_sorted_reverse_def py_round_zero upt_rec)

lemma rows_of_one_zero_score:
  "results_df (ranked_resumes [a] [0]) =
     [\<lparr>rank = 1, resume_name = a, match_score = 0, raw_score = 0\<rparr>]"
  by (simp add: results_df_def ranked_resumes_def py_sorted_reverse_def py_round_zero upt_rec)

lemma show_dashboard_raises:
  assumes "uploaded_files \<noteq> []" and "job_description \<noteq> []"
    and "process_uploads ([], [], []) uploaded_files = Inr (resumes, file_names, error_files)"
    and "resumes \<noteq> []"
    and "rank_resumes job_description resumes = Inl e"
  shows "show_dashboard user_email job_title job_description uploaded_files True =
           (if error_files \<noteq> [] then [Warning error_files] else [], Some e)"
  using assms by (simp add: show_dashboard_def Let_def)

lemma py_round_of_int: "py_round (of_int m) k = of_int m"
proof -
  have "(of_int m :: real) * 10 ^ k = of_int (m * 10 ^ k)" by simp
  then have "py_round (of_int m) k = of_int (m * 10 ^ k) / 10 ^ k"
    unfolding py_round_def Let_def by (simp only: floor_of_int) simp
  then show ?thesis by simp
qed

lemma rows_of_scores_one_zero:
  "results_df (ranked_resumes [a, b] [1, 0]) =
     [\<lparr>rank = 1, resume_name = a, match_score = 100, raw_score = 1\<rparr>,
      \<lparr>rank = 2, resume_name = b, match_score = 0, raw_score = 0\<rparr>]"
proof -
  have "py_round (of_int 100) 1 = of_int 100" "py_round (of_int 1) 4 = of_int 1"
    by (rule py_round_of_int)+
  then have "py_round 100 1 = 100" "py_round 1 4 = 1" by simp_all
  then show ?thesis
    by (simp add: results_df_def ranked_resumes_def py_sorted_reverse_def py_round_zero upt_rec)
qed

subsection \<open>The scores of rank_resumes\<close>

lemma rank_resumes_returns:
  assumes "resumes \<noteq> []" and "\<exists>d \<in> set (job_description # resumes). analyze d \<noteq> []"
  shows "rank_resumes job_description resumes =
           Inr (map (\<lambda>r. dot (normalize_row (tfidf_row (map analyze (job_description # resumes)) (analyze job_description)))
                              (normalize_row (tfidf_row (map analyze (job_description # resumes)) (analyze r))))
                    resumes)"
proof -
  from assms(2) have "vocabulary (map analyze (job_description # resumes)) \<noteq> []"
    unfolding vocabulary_empty_iff by auto
  with assms(1) show ?thesis by (simp add: rank_resumes_eq)
qed

lemma score_bounds:
  "0 \<le> dot (normalize_row (tfidf_row docs q)) (normalize_row (tfidf_row docs d))"
  "dot (normalize_row (tfidf_row docs q)) (normalize_row (tfidf_row docs d)) \<le> 1"
proof -
  show "0 \<le> dot (normalize_row (tfidf_row docs q)) (normalize_row (tfidf_row docs d))"
    by (intro dot_nonneg) (erule normalize_row_nonneg [rotated], erule tfidf_row_nonneg)+
  show "dot (normalize_row (tfidf_row docs q)) (normalize_row (tfidf_row docs d)) \<le> 1"
    by (rule dot_normalize_row_le_one)
qed

lemma score_zero_row:
  assumes "\<forall>x \<in> set v. x = 0"
  shows "dot (normalize_row u) (normalize_row v) = 0" "dot (normalize_row v) (normalize_row u) = 0"
proof -
  have "y = 0" if "y \<in> set (normalize_row v)" for y
    using that assms by (auto simp: normalize_row_def Let_def)
  then show "dot (normalize_row v) (normalize_row u) = 0"
    by (rule dot_zero_left)
  then show "dot (normalize_row u) (normalize_row v) = 0"
    by (simp add: dot_commute)
qed

lemma score_no_tokens:
  "dot (normalize_row (tfidf_row docs [])) (normalize_row (tfidf_row docs d)) = 0"
  "dot (normalize_row (tfidf_row docs q)) (normalize_row (tfidf_row docs [])) = 0"
  using tfidf_row_Nil [of _ docs] by (simp_all add: score_zero_row)

lemma score_same_tokens:
  assumes "d \<in> set docs" and "d \<noteq> []"
  shows "dot (normalize_row (tfidf_row docs d)) (normalize_row (tfidf_row docs d)) = 1"
  using tfidf_row_norm_pos [OF assms] by (rule dot_normalize_row_self)

lemma tfidf_row_zero_iff:
  assumes "d \<in> set docs"
  shows "(\<forall>x \<in> set (tfidf_row docs d). x = 0) \<longleftrightarrow> d = []"
  using tfidf_row_norm_pos [OF assms] tfidf_row_Nil [of _ docs]
  by (auto simp: l2_norm_zero_iff)

text \<open>
  The lemmas of this subsection are facts of the exact arithmetic of the model. C4
  bounds the float64 scores of the program by 1 and excludes NaN: rounding decides the
  first, and a real number is never NaN, so C4 is not stated over this model. What the
  model does show of a run on texts without a token is that the resume passes the
  extraction as usable text and that the run ends with the exception of the vectorizer.
\<close>

lemma tokenless_upload_ends_run_with_error:
  "process_uploads ([], [], []) [\<lparr>name = ''cv.pdf'', reader = Inr [Inr ''C, C#, R'']\<rparr>] =
     Inr ([''C, C#, R''], [''cv.pdf''], []) \<and>
   rank_resumes ''R&D'' [''C, C#, R''] =
     Inl (ValueError ''empty vocabulary; perhaps the documents only contain stop words'') \<and>
   show_dashboard ''hr@example.com'' ''Engineer'' ''R&D''
     [\<lparr>name = ''cv.pdf'', reader = Inr [Inr ''C, C#, R'']\<rparr>] True =
     ([], Some (ValueError ''empty vocabulary; perhaps the documents only contain stop words''))"
proof -
  have p: "process_uploads ([], [], []) [\<lparr>name = ''cv.pdf'', reader = Inr [Inr ''C, C#, R'']\<rparr>] =
     Inr ([''C, C#, R''], [''cv.pdf''], [])"
    by code_simp
  have "vocabulary (map analyze [''R&D'', ''C, C#, R'']) = []" by code_simp
  then have r: "rank_resumes ''R&D'' [''C, C#, R''] =
     Inl (ValueError ''empty vocabulary; perhaps the documents only contain stop words'')"
    by (simp add: rank_resumes_eq)
  have "show_dashboard ''hr@example.com'' ''Engineer'' ''R&D''
     [\<lparr>name = ''cv.pdf'', reader = Inr [Inr ''C, C#, R'']\<rparr>] True =
     ([], Some (ValueError ''empty vocabulary; perhaps the documents only contain stop words''))"
    using show_dashboard_raises [OF _ _ p _ r] by simp
  with p r show ?thesis by simp
qed

text \<open>
  C5. The weight of a term in a document is its count in the document times its
  inverse document frequency \<open>ln ((1 + n) / (1 + df)) + 1\<close>. Both \<open>n\<close> and \<open>df\<close> are
  taken over the job description and the resumes together: \<open>n\<close> is one more than the
  number of resumes, and \<open>df\<close> counts the job description like any resume. With one
  added to numerator and denominator the quotient never divides by zero; the inverse
  document frequency is at least 1, it is exactly 1 for a term that occurs in every
  document, and the weight of a term in a document that contains it is positive. These
  rows (of the job description and of each resume, over the same corpus) are the ones
  \<^verbatim>\<open>rank_resumes\<close> compares.
\<close>

theorem tfidf_weights_over_combined_corpus:
  "tfidf_row (map analyze (job_description # resumes)) d =
     map (\<lambda>t. real (count_list d t) *
               (ln ((1 + real (1 + length resumes)) /
                    (1 + real (df (map analyze (job_description # resumes)) t))) + 1))
         (vocabulary (map analyze (job_description # resumes))) \<and>
   set (vocabulary (map analyze (job_description # resumes))) =
     set (analyze job_description) \<union> (\<Union>r \<in> set resumes. set (analyze r)) \<and>
   df (map analyze (job_description # resumes)) t =
     (if t \<in> set (analyze job_description) then 1 else 0) +
     length (filter (\<lambda>r. t \<in> set (analyze r)) resumes) \<and>
   df (map analyze (job_description # resumes)) t \<le> 1 + length resumes \<and>
   0 < 1 + real (df (map analyze (job_description # resumes)) t) \<and>
   1 \<le> idf (map analyze (job_description # resumes)) t \<and>
   ((\<forall>doc \<in> set (job_description # resumes). t \<in> set (analyze doc)) \<longrightarrow>
      idf (map analyze (job_description # resumes)) t = 1) \<and>
   (t \<in> set d \<longrightarrow> 0 < tf d t * idf (map analyze (job_description # resumes)) t) \<and>
   rank_resumes job_description resumes =
     (if vocabulary (map analyze (job_description # resumes)) = []
      then Inl (ValueError ''empty vocabulary; perhaps the documents only contain stop words'')
      else if resumes = []
      then Inl (ValueError ''Found array with 0 sample(s) while a minimum of 1 is required.'')
      else Inr (map (\<lambda>r. dot (normalize_row (tfidf_row (map analyze (job_description # resumes)) (analyze job_description)))
                              (normalize_row (tfidf_row (map analyze (job_description # resumes)) (analyze r))))
                    resumes))"
proof -
  let ?docs = "map analyze (job_description # resumes)"
  have w: "tfidf_row ?docs d =
     map (\<lambda>t. real (count_list d t) * (ln ((1 + real (1 + length resumes)) / (1 + real (df ?docs t))) + 1))
         (vocabulary ?docs)"
    by (simp add: tfidf_row_def tf_def idf_def)
  have v: "set (vocabulary ?docs) = set (analyze job_description) \<union> (\<Union>r \<in> set resumes. set (analyze r))"
    by (simp add: set_vocabulary)
  have d: "df ?docs t = (if t \<in> set (analyze job_description) then 1 else 0) +
      length (filter (\<lambda>r. t \<in> set (analyze r)) resumes)"
    by (simp add: df_def filter_map o_def)
  have le: "df ?docs t \<le> 1 + length resumes"
    using df_le_length [of ?docs t] by simp
  have pos: "0 < 1 + real (df ?docs t)" by simp
  have i1: "1 \<le> idf ?docs t" by (rule idf_ge_one)
  have all: "idf ?docs t = 1" if "\<forall>doc \<in> set (job_description # resumes). t \<in> set (analyze doc)"
  proof -
    from that have "filter (\<lambda>d. t \<in> set d) ?docs = ?docs"
      by (intro filter_True) auto
    then have "df ?docs t = length ?docs" by (simp only: df_def)
    then show ?thesis by (simp add: idf_def)
  qed
  have wp: "0 < tf d t * idf ?docs t" if "t \<in> set d"
    using weight_pos [OF that, of ?docs] by linarith
  from w v d le pos i1 all wp rank_resumes_eq [of job_description resumes] show ?thesis
    by blast
qed

theorem tfidf_weights_over_combined_corpus_witness:
  "''python'' \<in> set (analyze ''Python developer'') \<and>
   ''python'' \<in> set (analyze ''Senior Python engineer'') \<and>
   idf (map analyze [''Python developer'', ''python tester'', ''Senior Python engineer'']) ''python'' = 1 \<and>
   df (map analyze [''Python developer'', ''python tester'', ''Senior Python engineer'']) ''python'' = 3 \<and>
   ''python'' \<in> set (analyze ''python tester'') \<and>
   0 < tf (analyze ''python tester'') ''python'' *
       idf (map analyze [''Python developer'', ''python tester'', ''Senior Python engineer'']) ''python''"
proof -
  let ?job = "''Python developer''"
  let ?rs = "[''python tester'', ''Senior Python engineer'']"
  have a: "\<forall>doc \<in> set (?job # ?rs). ''python'' \<in> set (analyze doc)" by code_simp
  have b: "''python'' \<in> set (analyze ''python tester'')" by code_simp
  have c: "(if ''python'' \<in> set (analyze ?job) then 1 else 0) +
      length (filter (\<lambda>r. ''python'' \<in> set (analyze r)) ?rs) = (3::nat)"
    by code_simp
  note t = tfidf_weights_over_combined_corpus [of ?job ?rs "analyze ''python tester''" "''python''"]
  from t a have i: "idf (map analyze (?job # ?rs)) ''python'' = 1" by blast
  from t c have d: "df (map analyze (?job # ?rs)) ''python'' = 3" by presburger
  from t b have p: "0 < tf (analyze ''python tester'') ''python'' * idf (map analyze (?job # ?rs)) ''python''"
    by blast
  from a have a': "''python'' \<in> set (analyze ''Python developer'')"
    "''python'' \<in> set (analyze ''Senior Python engineer'')"
    by simp_all
  from a' i d b p show ?thesis by blast
qed




subsection \<open>Empty and blank job descriptions\<close>

text \<open>
  C3, as stated, fails for a job description of blanks: it is not empty, so the button
  is enabled, and the run ranks the upload (with the score 0), saves the ranking and
  offers it for download.
\<close>

theorem blank_query_is_ranked_counterexample:
  "py_strip ''   '' = [] \<and>
   show_dashboard ''hr@example.com'' ''Engineer'' ''   ''
     [\<lparr>name = ''cv.pdf'', reader = Inr [Inr ''Python developer'']\<rparr>] True =
     ([Dataframe [\<lparr>rank = 1, resume_name = ''cv.pdf'', match_score = 0, raw_score = 0\<rparr>],
       BarChart [\<lparr>rank = 1, resume_name = ''cv.pdf'', match_score = 0, raw_score = 0\<rparr>],
       SaveRankingHistory ''hr@example.com'' ''Engineer'' ''   ''
         [\<lparr>rank = 1, resume_name = ''cv.pdf'', match_score = 0, raw_score = 0\<rparr>],
       DownloadButton ''ranked_resumes.csv''
         [\<lparr>rank = 1, resume_name = ''cv.pdf'', match_score = 0, raw_score = 0\<rparr>],
       DownloadButton ''ranked_resumes.xlsx''
         [\<lparr>rank = 1, resume_name = ''cv.pdf'', match_score = 0, raw_score = 0\<rparr>]],
      None)"
proof -
  let ?files = "[\<lparr>name = ''cv.pdf'', reader = Inr [Inr ''Python developer'']\<rparr>]"
  have s: "py_strip ''   '' = []" by code_simp
  have p: "process_uploads ([], [], []) ?files = Inr ([''Python developer''], [''cv.pdf''], [])"
    by code_simp
  have q: "analyze ''   '' = []" by code_simp
  have "analyze ''Python developer'' \<noteq> []" by code_simp
  then have "\<exists>d \<in> set (''   '' # [''Python developer'']). analyze d \<noteq> []" by simp
  then have r: "rank_resumes ''   '' [''Python developer''] = Inr [0]"
    by (subst rank_resumes_returns) (simp_all add: q score_no_tokens)
  have "show_dashboard ''hr@example.com'' ''Engineer'' ''   '' ?files True =
      ((if ([] :: string list) \<noteq> [] then [Warning []] else []) @
       [Dataframe [\<lparr>rank = 1, resume_name = ''cv.pdf'', match_score = 0, raw_score = 0\<rparr>],
        BarChart (take (min (length [\<lparr>rank = 1, resume_name = ''cv.pdf'', match_score = 0, raw_score = 0\<rparr>]) 10)
          [\<lparr>rank = 1, resume_name = ''cv.pdf'', match_score = 0, raw_score = 0\<rparr>]),
        SaveRankingHistory ''hr@example.com'' (if ''Engineer'' \<noteq> [] then ''Engineer'' else ''Unnamed Job'')
          ''   '' [\<lparr>rank = 1, resume_name = ''cv.pdf'', match_score = 0, raw_score = 0\<rparr>],
        DownloadButton ''ranked_resumes.csv''
          [\<lparr>rank = 1, resume_name = ''cv.pdf'', match_score = 0, raw_score = 0\<rparr>],
        DownloadButton ''ranked_resumes.xlsx''
          [\<lparr>rank = 1, resume_name = ''cv.pdf'', match_score = 0, raw_score = 0\<rparr>]],
       None)"
    by (rule show_dashboard_ranked [OF _ _ p _ r rows_of_one_zero_score]) simp_all
  with s show ?thesis by simp
qed

text \<open>
  C3, amended. With an empty job description the button is disabled: whatever is
  uploaded and whether or not the user tries to press the button, the run processes
  nothing, shows no message and produces no ranking.
\<close>

theorem empty_query_runs_nothing:
  "show_dashboard user_email job_title [] uploaded_files clicked = ([], None)"
  by (simp add: show_dashboard_def)

theorem empty_query_runs_nothing_witness:
  "show_dashboard ''hr@example.com'' ''Engineer'' []
     [\<lparr>name = ''cv.pdf'', reader = Inr [Inr ''Python developer'']\<rparr>] True = ([], None)"
  by (rule empty_query_runs_nothing)

subsection \<open>Uploads without readable text\<close>

text \<open>
  C1, at a scanned upload. A PDF whose only page has no text layer is not excluded:
  \<^verbatim>\<open>extract_text_from_pdf\<close> returns \<^verbatim>\<open>"No readable text found."\<close>, the loop does not find
  \<^verbatim>\<open>"Error extracting text"\<close> in it, and the sentence is scored as if it were the
  resume; the upload is in the ranking, at rank 2, and no warning names it.
\<close>

theorem scanned_pdf_is_scored:
  "extract_text_from_pdf (Inr [Inr '''']) = Inr ''No readable text found.'' \<and>
   process_uploads ([], [], [])
     [\<lparr>name = ''cv.pdf'', reader = Inr [Inr ''Python developer'']\<rparr>,
      \<lparr>name = ''scan.pdf'', reader = Inr [Inr '''']\<rparr>] =
     Inr ([''Python developer'', ''No readable text found.''], [''cv.pdf'', ''scan.pdf''], []) \<and>
   show_dashboard ''hr@example.com'' ''Engineer'' ''Python developer''
     [\<lparr>name = ''cv.pdf'', reader = Inr [Inr ''Python developer'']\<rparr>,
      \<lparr>name = ''scan.pdf'', reader = Inr [Inr '''']\<rparr>] True =
     ([Dataframe
         [\<lparr>rank = 1, resume_name = ''cv.pdf'', match_score = 100, raw_score = 1\<rparr>,
          \<lparr>rank = 2, resume_name = ''scan.pdf'', match_score = 0, raw_score = 0\<rparr>],
       BarChart
         [\<lparr>rank = 1, resume_name = ''cv.pdf'', match_score = 100, raw_score = 1\<rparr>,
          \<lparr>rank = 2, resume_name = ''scan.pdf'', match_score = 0, raw_score = 0\<rparr>],
       SaveRankingHistory ''hr@example.com'' ''Engineer'' ''Python developer''
         [\<lparr>rank = 1, resume_name = ''cv.pdf'', match_score = 100, raw_score = 1\<rparr>,
          \<lparr>rank = 2, resume_name = ''scan.pdf'', match_score = 0, raw_score = 0\<rparr>],
       DownloadButton ''ranked_resumes.csv''
         [\<lparr>rank = 1, resume_name = ''cv.pdf'', match_score = 100, raw_score = 1\<rparr>,
          \<lparr>rank = 2, resume_name = ''scan.pdf'', match_score = 0, raw_score = 0\<rparr>],
       DownloadButton ''ranked_resumes.xlsx''
         [\<lparr>rank = 1, resume_name = ''cv.pdf'', match_score = 100, raw_score = 1\<rparr>,
          \<lparr>rank = 2, resume_name = ''scan.pdf'', match_score = 0, raw_score = 0\<rparr>]],
      None)"
proof -
  let ?files = "[\<lparr>name = ''cv.pdf'', reader = Inr [Inr ''Python developer'']\<rparr>,
      \<lparr>name = ''scan.pdf'', reader = Inr [Inr '''']\<rparr>]"
  let ?job = "''Python developer''"
  let ?rs = "[''Python developer'', ''No readable text found.'']"
  let ?rows = "[\<lparr>rank = 1, resume_name = ''cv.pdf'', match_score = 100, raw_score = 1\<rparr>,
          \<lparr>rank = 2, resume_name = ''scan.pdf'', match_score = 0, raw_score = 0\<rparr>]"
  have e: "extract_text_from_pdf (Inr [Inr '''']) = Inr ''No readable text found.''"
    by code_simp
  have p: "process_uploads ([], [], []) ?files = Inr (?rs, [''cv.pdf'', ''scan.pdf''], [])"
    by code_simp
  have a: "analyze ?job \<noteq> []" by code_simp
  have dj: "set (analyze ?job) \<inter> set (analyze ''No readable text found.'') = {}"
    by code_simp
  from a have "\<exists>d \<in> set (?job # ?rs). analyze d \<noteq> []" by simp
  then have r: "rank_resumes ?job ?rs = Inr [1, 0]"
    by (subst rank_resumes_returns) (simp_all add: a score_same_tokens dot_disjoint [OF dj])
  have "show_dashboard ''hr@example.com'' ''Engineer'' ?job ?files True =
      ((if ([] :: string list) \<noteq> [] then [Warning []] else []) @
       [Dataframe ?rows,
        BarChart (take (min (length ?rows) 10) ?rows),
        SaveRankingHistory ''hr@example.com'' (if ''Engineer'' \<noteq> [] then ''Engineer'' else ''Unnamed Job'')
          ?job ?rows,
        DownloadButton ''ranked_resumes.csv'' ?rows,
        DownloadButton ''ranked_resumes.xlsx'' ?rows],
       None)"
    by (rule show_dashboard_ranked [OF _ _ p _ r rows_of_scores_one_zero]) simp_all
  with e p show ?thesis by simp
qed

text \<open>
  C6, at uploads without any text. When every upload is unreadable without raising (a
  page without a text layer, a file without pages), \<open>resumes\<close> holds the sentence
  \<^verbatim>\<open>"No readable text found."\<close> once per upload and is not empty: the run does not
  end with "No valid resumes to process" but ranks the uploads, saves the ranking to
  the history and offers it for download.
\<close>

theorem unreadable_uploads_are_ranked:
  "process_uploads ([], [], [])
     [\<lparr>name = ''scan1.pdf'', reader = Inr [Inr '''']\<rparr>,
      \<lparr>name = ''scan2.pdf'', reader = Inr []\<rparr>] =
     Inr ([''No readable text found.'', ''No readable text found.''], [''scan1.pdf'', ''scan2.pdf''], []) \<and>
   show_dashboard ''hr@example.com'' [] ''Python developer''
     [\<lparr>name = ''scan1.pdf'', reader = Inr [Inr '''']\<rparr>,
      \<lparr>name = ''scan2.pdf'', reader = Inr []\<rparr>] True =
     ([Dataframe
         [\<lparr>rank = 1, resume_name = ''scan1.pdf'', match_score = 0, raw_score = 0\<rparr>,
          \<lparr>rank = 2, resume_name = ''scan2.pdf'', match_score = 0, raw_score = 0\<rparr>],
       BarChart
         [\<lparr>rank = 1, resume_name = ''scan1.pdf'', match_score = 0, raw_score = 0\<rparr>,
          \<lparr>rank = 2, resume_name = ''scan2.pdf'', match_score = 0, raw_score = 0\<rparr>],
       SaveRankingHistory ''hr@example.com'' ''Unnamed Job'' ''Python developer''
         [\<lparr>rank = 1, resume_name = ''scan1.pdf'', match_score = 0, raw_score = 0\<rparr>,
          \<lparr>rank = 2, resume_name = ''scan2.pdf'', match_score = 0, raw_score = 0\<rparr>],
       DownloadButton ''ranked_resumes.csv''
         [\<lparr>rank = 1, resume_name = ''scan1.pdf'', match_score = 0, raw_score = 0\<rparr>,
          \<lparr>rank = 2, resume_name = ''scan2.pdf'', match_score = 0, raw_score = 0\<rparr>],
       DownloadButton ''ranked_resumes.xlsx''
         [\<lparr>rank = 1, resume_name = ''scan1.pdf'', match_score = 0, raw_score = 0\<rparr>,
          \<lparr>rank = 2, resume_name = ''scan2.pdf'', match_score = 0, raw_score = 0\<rparr>]],
      None)"
proof -
  let ?files = "[\<lparr>name = ''scan1.pdf'', reader = Inr [Inr '''']\<rparr>,
      \<lparr>name = ''scan2.pdf'', reader = Inr []\<rparr>]"
  let ?job = "''Python developer''"
  let ?rs = "[''No readable text found.'', ''No readable text found.'']"
  let ?rows = "[\<lparr>rank = 1, resume_name = ''scan1.pdf'', match_score = 0, raw_score = 0\<rparr>,
          \<lparr>rank = 2, resume_name = ''scan2.pdf'', match_score = 0, raw_score = 0\<rparr>]"
  have p: "process_uploads ([], [], []) ?files = Inr (?rs, [''scan1.pdf'', ''scan2.pdf''], [])"
    by code_simp
  have a: "analyze ?job \<noteq> []" by code_simp
  have dj: "set (analyze ?job) \<inter> set (analyze ''No readable text found.'') = {}"
    by code_simp
  from a have "\<exists>d \<in> set (?job # ?rs). analyze d \<noteq> []" by simp
  then have r: "rank_resumes ?job ?rs = Inr [0, 0]"
    by (subst rank_resumes_returns) (simp_all add: dot_disjoint [OF dj])
  have "show_dashboard ''hr@example.com'' [] ?job ?files True =
      ((if ([] :: string list) \<noteq> [] then [Warning []] else []) @
       [Dataframe ?rows,
        BarChart (take (min (length ?rows) 10) ?rows),
        SaveRankingHistory ''hr@example.com'' (if ([] :: string) \<noteq> [] then [] else ''Unnamed Job'')
          ?job ?rows,
        DownloadButton ''ranked_resumes.csv'' ?rows,
        DownloadButton ''ranked_resumes.xlsx'' ?rows],
       None)"
    by (rule show_dashboard_ranked [OF _ _ p _ r rows_of_two_zero_scores]) simp_all
  with p show ?thesis by simp
qed

end
